theory Spec2Isabelle
  imports Main
begin

section \<open>Constants of ceng322\_pa2.c\<close>

definition MAX_COMMAND_LENGTH :: nat where
  "MAX_COMMAND_LENGTH = 100"

definition MAX_ARGS :: nat where
  "MAX_ARGS = 11"

definition HISTORY_SIZE :: nat where
  "HISTORY_SIZE = 10"

text \<open>
  Values of the system headers the program includes (\<open>stdlib.h\<close>, \<open>unistd.h\<close>); they are
  not part of the source file and are given their usual values.
\<close>

definition EXIT_FAILURE :: int where
  "EXIT_FAILURE = 1"

definition STDIN_FILENO :: int where
  "STDIN_FILENO = 0"

definition STDOUT_FILENO :: int where
  "STDOUT_FILENO = 1"

section \<open>The command history\<close>

text \<open>
  \<open>char history[HISTORY_SIZE][MAX_COMMAND_LENGTH]\<close> and \<open>int history_count\<close> are the only
  process-wide state. The rows are zero-initialised, so each row starts as the empty
  string. A C string is the list of its characters before the terminating NUL.
\<close>

record shell =
  history :: "string list"
  history_count :: nat

definition initial_shell :: shell where
  "initial_shell = \<lparr>history = replicate HISTORY_SIZE [], history_count = 0\<rparr>"

text \<open>
  \<open>strncpy(dst, command, MAX_COMMAND_LENGTH)\<close> followed by
  \<open>dst[MAX_COMMAND_LENGTH - 1] = '\0'\<close> leaves the first 99 characters of the command.
\<close>

definition strncpy_row :: "string \<Rightarrow> string" where
  "strncpy_row command = take (MAX_COMMAND_LENGTH - 1) command"

text \<open>The shifting loop \<open>for (i = 0; i < HISTORY_SIZE - 1; i++) strcpy(history[i], history[i + 1])\<close>.\<close>

definition shift_history :: "string list \<Rightarrow> string list" where
  "shift_history h = fold (\<lambda>k rows. rows[k := rows ! (k + 1)]) [0 ..< HISTORY_SIZE - 1] h"

definition add_to_history :: "string \<Rightarrow> shell \<Rightarrow> shell" where
  "add_to_history command sh =
     (if history_count sh = HISTORY_SIZE
      then sh\<lparr>history := (shift_history (history sh))[HISTORY_SIZE - 1 := strncpy_row command]\<rparr>
      else sh\<lparr>history := (history sh)[history_count sh := strncpy_row command],
              history_count := history_count sh + 1\<rparr>)"

section \<open>Tokens\<close>

text \<open>
  \<open>strtok(command, " \t\n")\<close>: the tokens are the maximal runs of characters that are
  not a space, a tab or a newline, in order; empty runs are skipped.
\<close>

definition is_delim :: "char \<Rightarrow> bool" where
  "is_delim c = (c = CHR '' '' \<or> c = CHR 0x09 \<or> c = CHR 0x0A)"

fun strtok_from :: "string \<Rightarrow> string \<Rightarrow> string list" where
  "strtok_from cur [] = (if cur = [] then [] else [cur])"
| "strtok_from cur (c # cs) =
     (if is_delim c
      then (if cur = [] then strtok_from [] cs else cur # strtok_from [] cs)
      else strtok_from (cur @ [c]) cs)"

definition tokenize :: "string \<Rightarrow> string list" where
  "tokenize command = strtok_from [] command"

section \<open>The classifier loop of process\_command\_line\<close>

text \<open>
  A slot of one of the \<open>char *x[MAX_ARGS]\<close> arrays: not yet written (the arrays are
  uninitialised locals), the null pointer, or a pointer to a token.
\<close>

datatype cell = Garbage | NULL | Ptr string

datatype array_id = Left_args | Right_args | Second_command

text \<open>
  The source performs no bounds check. A store at an index outside \<open>0 ..< MAX_ARGS\<close>
  writes past the end of the array, which C leaves undefined; the model stops there and
  returns the store that went out of range.
\<close>

datatype undefined_behaviour = Store_Past_End array_id nat

definition store :: "array_id \<Rightarrow> cell list \<Rightarrow> nat \<Rightarrow> cell \<Rightarrow> undefined_behaviour + cell list" where
  "store a arr k v = (if k < MAX_ARGS then Inr (arr[k := v]) else Inl (Store_Past_End a k))"

text \<open>The locals \<open>i\<close>, \<open>j\<close> are the fields \<open>ctr_i\<close>, \<open>ctr_j\<close>.\<close>

record pstate =
  ctr_i :: nat
  ctr_j :: nat
  in_pipe :: bool
  background :: bool
  has_second_command :: bool
  left_args :: "cell list"
  right_args :: "cell list"
  second_command :: "cell list"

definition initial_pstate :: pstate where
  "initial_pstate =
     \<lparr>ctr_i = 0, ctr_j = 0, in_pipe = False, background = False, has_second_command = False,
      left_args = replicate MAX_ARGS Garbage, right_args = replicate MAX_ARGS Garbage,
      second_command = replicate MAX_ARGS Garbage\<rparr>"

text \<open>The branches of the loop body other than the \<open>break\<close>.\<close>

definition consume :: "pstate \<Rightarrow> string \<Rightarrow> undefined_behaviour + pstate" where
  "consume s token =
     (if token = ''|'' then
        (case store Left_args (left_args s) (ctr_j s) NULL of
           Inl u \<Rightarrow> Inl u
         | Inr la \<Rightarrow> Inr (s\<lparr>in_pipe := True, left_args := la, ctr_j := 0\<rparr>))
      else if token = ''&&'' then
        (case store Left_args (left_args s) (ctr_j s) NULL of
           Inl u \<Rightarrow> Inl u
         | Inr la \<Rightarrow> Inr (s\<lparr>left_args := la, ctr_i := 0, has_second_command := True\<rparr>))
      else if in_pipe s then
        (case store Right_args (right_args s) (ctr_j s) (Ptr token) of
           Inl u \<Rightarrow> Inl u
         | Inr ra \<Rightarrow> Inr (s\<lparr>right_args := ra, ctr_j := ctr_j s + 1\<rparr>))
      else if has_second_command s then
        (case store Second_command (second_command s) (ctr_i s) (Ptr token) of
           Inl u \<Rightarrow> Inl u
         | Inr sc \<Rightarrow> Inr (s\<lparr>second_command := sc, ctr_i := ctr_i s + 1\<rparr>))
      else
        (case store Left_args (left_args s) (ctr_j s) (Ptr token) of
           Inl u \<Rightarrow> Inl u
         | Inr la \<Rightarrow> Inr (s\<lparr>left_args := la, ctr_j := ctr_j s + 1\<rparr>)))"

text \<open>\<open>while (token != NULL) { ... }\<close> over the tokens still to come.\<close>

fun scan :: "pstate \<Rightarrow> string list \<Rightarrow> undefined_behaviour + pstate" where
  "scan s [] = Inr s"
| "scan s (token # rest) =
     (if token = ''&'' \<and> \<not> in_pipe s \<and> \<not> has_second_command s
      then Inr (s\<lparr>background := True\<rparr>)
      else (case consume s token of Inl u \<Rightarrow> Inl u | Inr s' \<Rightarrow> scan s' rest))"

text \<open>
  The three stores after the loop:
  \<open>left_args[j] = NULL; right_args[j] = NULL; second_command[i] = NULL;\<close>
\<close>

definition terminate_lists :: "pstate \<Rightarrow> undefined_behaviour + pstate" where
  "terminate_lists s =
     (case store Left_args (left_args s) (ctr_j s) NULL of
        Inl u \<Rightarrow> Inl u
      | Inr la \<Rightarrow>
          (case store Right_args (right_args s) (ctr_j s) NULL of
             Inl u \<Rightarrow> Inl u
           | Inr ra \<Rightarrow>
               (case store Second_command (second_command s) (ctr_i s) NULL of
                  Inl u \<Rightarrow> Inl u
                | Inr sc \<Rightarrow> Inr (s\<lparr>left_args := la, right_args := ra, second_command := sc\<rparr>))))"

definition classify :: "string list \<Rightarrow> undefined_behaviour + pstate" where
  "classify tokens =
     (case scan initial_pstate tokens of Inl u \<Rightarrow> Inl u | Inr s \<Rightarrow> terminate_lists s)"

definition parse_line :: "string \<Rightarrow> undefined_behaviour + pstate" where
  "parse_line command = classify (tokenize command)"

text \<open>
  What \<open>execvp\<close> reads from an argument array: the tokens before the first null pointer.
  Reaching an unwritten slot or the end of the array is not a valid argument vector.
\<close>

fun c_argv :: "cell list \<Rightarrow> string list option" where
  "c_argv [] = None"
| "c_argv (Garbage # cs) = None"
| "c_argv (NULL # cs) = Some []"
| "c_argv (Ptr t # cs) = map_option ((#) t) (c_argv cs)"

section \<open>Processes\<close>

text \<open>
  The operating system is a parameter of the model. For one call of
  \<open>process_command_line\<close> it fixes what \<open>pipe\<close> returns (the two descriptors
  \<open>pipefd[0]\<close>, \<open>pipefd[1]\<close>, or failure), what the first and the second call of
  \<open>fork\<close> return in the parent, and the status \<open>waitpid\<close> stores for a child
  (\<open>waitpid\<close> on a child of one's own is taken to succeed).
\<close>

datatype fork_result = Fork_Failed | Forked int

fun fork_value :: "fork_result \<Rightarrow> int" where
  "fork_value Fork_Failed = - 1"
| "fork_value (Forked pid) = pid"

text \<open>
  A wait status: \<open>Exited n\<close> satisfies \<open>WIFEXITED\<close> with \<open>WEXITSTATUS = n\<close>;
  \<open>Signaled n\<close> is a child killed by signal \<open>n\<close>, for which \<open>WIFEXITED\<close> is false.
\<close>

datatype wstatus = Exited nat | Signaled nat

record os =
  pipe_ret :: "(int \<times> int) option"
  fork1 :: fork_result
  fork2 :: fork_result
  wait_status :: "int \<Rightarrow> wstatus"

text \<open>
  The code a child runs after \<open>fork\<close> returned 0 in it. \<open>C_Execvp\<close> replaces the
  program when it succeeds; the actions listed after it run only when it fails.
  Printed texts are given without their final newline.
\<close>

datatype child_action =
    C_Close int
  | C_Dup2 int int
  | C_Execvp cell "cell list"
  | C_Perror string
  | C_Fprintf_stderr string
  | C_Exit int

text \<open>
  What the interpreter itself does, in order. \<open>E_Fork prog r\<close> is a call of \<open>fork\<close>
  that returned \<open>r\<close> in the parent, \<open>prog\<close> being the code of the child if one was
  created. The two directory builtins are recorded as single events: they neither
  touch the history nor create processes.
\<close>

datatype event =
    E_Fork "child_action list" fork_result
  | E_Perror string
  | E_Waitpid int
  | E_Pipe "(int \<times> int) option"
  | E_Close int
  | E_Printf_background int
  | E_Printf_background2 int int
  | E_Printf_history nat string
  | E_Printf string
  | E_Change_directory "cell list"
  | E_Pwd
  | E_Exit int

text \<open>The \<open>pid == 0\<close> branch of \<open>run_sequence_command\<close>.\<close>

definition sequence_child :: "cell list \<Rightarrow> child_action list" where
  "sequence_child args =
     [C_Execvp (args ! 0) args, C_Fprintf_stderr ''Error: Command not found'', C_Exit EXIT_FAILURE]"

definition run_sequence_command ::
  "cell list \<Rightarrow> bool \<Rightarrow> fork_result \<Rightarrow> (int \<Rightarrow> wstatus) \<Rightarrow> int \<times> event list" where
  "run_sequence_command args bg fr status_of =
     (let child = sequence_child args
      in case fr of
           Fork_Failed \<Rightarrow> (- 1, [E_Fork child Fork_Failed, E_Perror ''fork''])
         | Forked pid \<Rightarrow>
             (if \<not> bg
              then (case status_of pid of
                      Exited n \<Rightarrow> (int n, [E_Fork child (Forked pid), E_Waitpid pid])
                    | Signaled sig \<Rightarrow> (0, [E_Fork child (Forked pid), E_Waitpid pid]))
              else (0, [E_Fork child (Forked pid), E_Printf_background pid])))"

definition is_builtin :: "cell \<Rightarrow> bool" where
  "is_builtin c =
     (case c of
        Ptr t \<Rightarrow> t = ''cd'' \<or> t = ''pwd'' \<or> t = ''history'' \<or> t = ''exit''
      | _ \<Rightarrow> False)"

definition history_listing :: "shell \<Rightarrow> event list" where
  "history_listing sh =
     (let count = (if history_count sh > HISTORY_SIZE then HISTORY_SIZE else history_count sh)
      in map (\<lambda>k. E_Printf_history (k + 1) (history sh ! k)) [0 ..< count])"

definition execute_builtin_command :: "cell list \<Rightarrow> shell \<Rightarrow> event list" where
  "execute_builtin_command args sh =
     (if args ! 0 = Ptr ''cd'' then [E_Change_directory args]
      else if args ! 0 = Ptr ''pwd'' then [E_Pwd]
      else if args ! 0 = Ptr ''history'' then history_listing sh
      else if args ! 0 = Ptr ''exit'' then [E_Printf ''Exiting...'', E_Exit 0]
      else [])"

definition pipeline_children :: "pstate \<Rightarrow> int \<Rightarrow> int \<Rightarrow> child_action list \<times> child_action list" where
  "pipeline_children s rd wr =
     ([C_Close rd, C_Dup2 wr STDOUT_FILENO, C_Close wr,
       C_Execvp (left_args s ! 0) (left_args s), C_Perror ''execvp'', C_Exit EXIT_FAILURE],
      [C_Close wr, C_Dup2 rd STDIN_FILENO, C_Close rd,
       C_Execvp (right_args s ! 0) (right_args s), C_Perror ''execvp'', C_Exit EXIT_FAILURE])"

text \<open>The part of \<open>process_command_line\<close> after the builtin check.\<close>

definition execute :: "os \<Rightarrow> pstate \<Rightarrow> event list" where
  "execute w s =
     (if in_pipe s then
        (case pipe_ret w of
           None \<Rightarrow> [E_Pipe None, E_Perror ''pipe'']
         | Some (rd, wr) \<Rightarrow>
             [E_Pipe (Some (rd, wr)),
              E_Fork (fst (pipeline_children s rd wr)) (fork1 w),
              E_Fork (snd (pipeline_children s rd wr)) (fork2 w),
              E_Close rd, E_Close wr]
             @ (if \<not> background s
                then [E_Waitpid (fork_value (fork1 w)), E_Waitpid (fork_value (fork2 w))]
                else [E_Printf_background2 (fork_value (fork1 w)) (fork_value (fork2 w))]))
      else if has_second_command s then
        (case run_sequence_command (left_args s) (background s) (fork1 w) (wait_status w) of
           (exit_status, evs) \<Rightarrow>
             (if exit_status = 0
              then evs @ snd (run_sequence_command (second_command s) (background s)
                                (fork2 w) (wait_status w))
              else evs))
      else snd (run_sequence_command (left_args s) (background s) (fork1 w) (wait_status w)))"

definition process_command_line ::
  "os \<Rightarrow> shell \<Rightarrow> string \<Rightarrow> undefined_behaviour + shell \<times> event list" where
  "process_command_line w sh command =
     (let sh' = add_to_history command sh
      in case parse_line command of
           Inl u \<Rightarrow> Inl u
         | Inr s \<Rightarrow>
             Inr (sh',
                  if is_builtin (left_args s ! 0)
                  then execute_builtin_command (left_args s) sh'
                  else execute w s))"

section \<open>Vocabulary for the statements\<close>

text \<open>A token that is none of the three operator strings.\<close>

definition plain :: "string \<Rightarrow> bool" where
  "plain t = (t \<noteq> ''&'' \<and> t \<noteq> ''|'' \<and> t \<noteq> ''&&'')"

text \<open>An argument array whose first slots hold \<open>cs\<close> and whose other slots were never written.\<close>

definition slots :: "cell list \<Rightarrow> cell list" where
  "slots cs = cs @ replicate (MAX_ARGS - length cs) Garbage"

text \<open>Operating systems for the examples: every child exits with one status, or is killed.\<close>

definition exits_with :: "nat \<Rightarrow> int \<Rightarrow> wstatus" where
  "exits_with n pid = Exited n"

definition killed_by :: "nat \<Rightarrow> int \<Rightarrow> wstatus" where
  "killed_by sig pid = Signaled sig"

definition sample_os :: "(int \<Rightarrow> wstatus) \<Rightarrow> os" where
  "sample_os st = \<lparr>pipe_ret = Some (3, 4), fork1 = Forked 100, fork2 = Forked 101, wait_status = st\<rparr>"

section \<open>Facts about the classifier loop\<close>

lemma consume_flags:
  assumes "consume s t = Inr s'"
  shows "background s' = background s"
    and "in_pipe s' = (in_pipe s \<or> t = ''|'')"
    and "has_second_command s' = (has_second_command s \<or> t = ''&&'')"
  using assms by (auto simp: consume_def store_def split: if_splits)

lemma consume_lengths:
  assumes "consume s t = Inr s'"
  shows "length (left_args s') = length (left_args s)"
    and "length (right_args s') = length (right_args s)"
    and "length (second_command s') = length (second_command s)"
  using assms by (auto simp: consume_def store_def split: if_splits)

lemma scan_lengths:
  "scan s ts = Inr s' \<Longrightarrow>
     length (left_args s') = length (left_args s) \<and>
     length (right_args s') = length (right_args s) \<and>
     length (second_command s') = length (second_command s)"
proof (induction ts arbitrary: s)
  case Nil
  then show ?case by simp
next
  case (Cons t ts)
  show ?case
  proof (cases "t = ''&'' \<and> \<not> in_pipe s \<and> \<not> has_second_command s")
    case True
    with Cons.prems show ?thesis by auto
  next
    case False
    with Cons.prems obtain s1 where c: "consume s t = Inr s1" and r: "scan s1 ts = Inr s'"
      by (auto split: sum.splits)
    from Cons.IH[OF r] consume_lengths[OF c] show ?thesis by simp
  qed
qed

text \<open>
  The flags after the loop: either the loop stopped at a \<open>&\<close>, and then no operator had
  been seen, or every token was looked at and each flag tells whether its operator occurs.
\<close>

lemma scan_flags:
  "\<not> background s \<Longrightarrow> scan s ts = Inr s' \<Longrightarrow>
     (if background s' then \<not> in_pipe s' \<and> \<not> has_second_command s'
      else in_pipe s' = (in_pipe s \<or> ''|'' \<in> set ts) \<and>
           has_second_command s' = (has_second_command s \<or> ''&&'' \<in> set ts))"
proof (induction ts arbitrary: s)
  case Nil
  then show ?case by simp
next
  case (Cons t ts)
  show ?case
  proof (cases "t = ''&'' \<and> \<not> in_pipe s \<and> \<not> has_second_command s")
    case True
    with Cons.prems show ?thesis by auto
  next
    case False
    with Cons.prems obtain s1 where c: "consume s t = Inr s1" and r: "scan s1 ts = Inr s'"
      by (auto split: sum.splits)
    from consume_flags[OF c] Cons.prems(1) have nb: "\<not> background s1" by simp
    from Cons.IH[OF nb r] consume_flags[OF c] show ?thesis
      by (auto split: if_splits)
  qed
qed

lemma terminate_lists_flags:
  assumes "terminate_lists s = Inr s'"
  shows "background s' = background s" "in_pipe s' = in_pipe s"
    "has_second_command s' = has_second_command s"
  using assms by (auto simp: terminate_lists_def split: sum.splits)

lemma classify_flags:
  assumes "classify ts = Inr s"
  shows "if background s then \<not> in_pipe s \<and> \<not> has_second_command s
         else in_pipe s = (''|'' \<in> set ts) \<and> has_second_command s = (''&&'' \<in> set ts)"
proof -
  from assms obtain s1 where a: "scan initial_pstate ts = Inr s1" and b: "terminate_lists s1 = Inr s"
    by (auto simp: classify_def split: sum.splits)
  have "\<not> background initial_pstate" by (simp add: initial_pstate_def)
  from scan_flags[OF this a] terminate_lists_flags[OF b] show ?thesis
    by (simp add: initial_pstate_def)
qed

lemma scan_append:
  "\<not> background s \<Longrightarrow>
   scan s (xs @ ys) =
     (case scan s xs of Inl u \<Rightarrow> Inl u
      | Inr s1 \<Rightarrow> if background s1 then Inr s1 else scan s1 ys)"
proof (induction xs arbitrary: s)
  case Nil
  then show ?case by simp
next
  case (Cons t ts)
  show ?case
  proof (cases "t = ''&'' \<and> \<not> in_pipe s \<and> \<not> has_second_command s")
    case True
    then show ?thesis by simp
  next
    case False
    show ?thesis
    proof (cases "consume s t")
      case (Inl u)
      with False show ?thesis by simp
    next
      case (Inr s1)
      from consume_flags(1)[OF Inr] Cons.prems have "\<not> background s1" by simp
      then have "scan s1 (ts @ ys) =
        (case scan s1 ts of Inl u \<Rightarrow> Inl u
         | Inr s2 \<Rightarrow> if background s2 then Inr s2 else scan s2 ys)"
        by (rule Cons.IH)
      with False Inr show ?thesis by auto
    qed
  qed
qed

lemma scan_no_amp:
  "''&'' \<notin> set ts \<Longrightarrow> scan s ts = Inr s' \<Longrightarrow> background s' = background s"
proof (induction ts arbitrary: s)
  case Nil
  then show ?case by simp
next
  case (Cons t ts)
  from Cons.prems obtain s1 where c: "consume s t = Inr s1" and r: "scan s1 ts = Inr s'"
    by (auto split: sum.splits)
  from Cons.prems(1) have "''&'' \<notin> set ts" by simp
  from Cons.IH[OF this r] consume_flags(1)[OF c] show ?case by simp
qed

text \<open>Once an operator has been seen, a \<open>&\<close> no longer stops the loop.\<close>

lemma scan_after_operator:
  "in_pipe s \<or> has_second_command s \<Longrightarrow> scan s ts = Inr s' \<Longrightarrow>
     background s' = background s \<and> (in_pipe s \<longrightarrow> in_pipe s') \<and>
     (has_second_command s \<longrightarrow> has_second_command s')"
proof (induction ts arbitrary: s)
  case Nil
  then show ?case by simp
next
  case (Cons t ts)
  from Cons.prems obtain s1 where c: "consume s t = Inr s1" and r: "scan s1 ts = Inr s'"
    by (auto split: sum.splits)
  from consume_flags[OF c] Cons.prems(1) have "in_pipe s1 \<or> has_second_command s1" by auto
  from Cons.IH[OF this r] consume_flags[OF c] show ?case by auto
qed

lemma scan_through_operator:
  assumes "scan initial_pstate (A @ t # B) = Inr s3" and "''&'' \<notin> set A" and "t \<noteq> ''&''"
  shows "\<exists>s1 s2. scan initial_pstate A = Inr s1 \<and> \<not> background s1 \<and>
           consume s1 t = Inr s2 \<and> scan s2 B = Inr s3"
proof -
  have nb: "\<not> background initial_pstate" by (simp add: initial_pstate_def)
  from assms(1) scan_append[OF nb, of A "t # B"] obtain s1 where
    a: "scan initial_pstate A = Inr s1"
    by (cases "scan initial_pstate A") auto
  from scan_no_amp[OF assms(2) a] nb have nb1: "\<not> background s1" by simp
  from assms(1) scan_append[OF nb, of A "t # B"] a nb1 have b: "scan s1 (t # B) = Inr s3" by simp
  with assms(3) obtain s2 where "consume s1 t = Inr s2" and "scan s2 B = Inr s3"
    by (auto split: sum.splits)
  with a nb1 show ?thesis by blast
qed

lemma operator_line:
  assumes "classify (A @ t # B) = Inr s" and "''&'' \<notin> set A" and "t = ''|'' \<or> t = ''&&''"
  shows "\<not> background s \<and> (t = ''|'' \<longrightarrow> in_pipe s) \<and> (t = ''&&'' \<longrightarrow> has_second_command s)"
proof -
  from assms(1) obtain s3 where sc: "scan initial_pstate (A @ t # B) = Inr s3"
    and tl: "terminate_lists s3 = Inr s"
    by (auto simp: classify_def split: sum.splits)
  from assms(3) have "t \<noteq> ''&''" by auto
  from scan_through_operator[OF sc assms(2) this] obtain s1 s2 where
    nb1: "\<not> background s1" and c: "consume s1 t = Inr s2" and d: "scan s2 B = Inr s3"
    by blast
  from consume_flags[OF c] nb1 assms(3) have
    f2: "\<not> background s2" "in_pipe s2 \<or> has_second_command s2"
        "t = ''|'' \<longrightarrow> in_pipe s2" "t = ''&&'' \<longrightarrow> has_second_command s2"
    by auto
  from scan_after_operator[OF f2(2) d] f2 terminate_lists_flags[OF tl] show ?thesis by auto
qed

lemma c_argv_prefix: "c_argv (map Ptr ts @ NULL # cs) = Some ts"
  by (induction ts) auto

lemma c_argv_take:
  assumes "take k xs = map Ptr ts" and "k < length xs" and "xs ! k = NULL"
  shows "c_argv xs = Some ts"
proof -
  from assms(2) have "xs = take k xs @ xs ! k # drop (Suc k) xs"
    by (rule id_take_nth_drop)
  with assms(1,3) have "xs = map Ptr ts @ NULL # drop (Suc k) xs" by simp
  then show ?thesis using c_argv_prefix by metis
qed

text \<open>Plain tokens before any operator fill the primary list from index \<open>j\<close> on.\<close>

lemma scan_plain_left:
  "\<not> in_pipe s \<Longrightarrow> \<not> has_second_command s \<Longrightarrow> \<forall>t \<in> set ts. plain t \<Longrightarrow>
   ctr_j s + length ts \<le> MAX_ARGS \<Longrightarrow> length (left_args s) = MAX_ARGS \<Longrightarrow>
   \<exists>s'. scan s ts = Inr s' \<and> ctr_j s' = ctr_j s + length ts \<and>
        take (ctr_j s') (left_args s') = take (ctr_j s) (left_args s) @ map Ptr ts \<and>
        length (left_args s') = MAX_ARGS \<and> ctr_i s' = ctr_i s"
proof (induction ts arbitrary: s)
  case Nil
  then show ?case by simp
next
  case (Cons t ts)
  let ?s1 = "s\<lparr>left_args := (left_args s)[ctr_j s := Ptr t], ctr_j := ctr_j s + 1\<rparr>"
  from Cons.prems have pt: "plain t" and lt: "ctr_j s < MAX_ARGS" by auto
  with Cons.prems have c: "consume s t = Inr ?s1"
    by (simp add: consume_def store_def plain_def)
  have "\<exists>s'. scan ?s1 ts = Inr s' \<and> ctr_j s' = ctr_j ?s1 + length ts \<and>
        take (ctr_j s') (left_args s') = take (ctr_j ?s1) (left_args ?s1) @ map Ptr ts \<and>
        length (left_args s') = MAX_ARGS \<and> ctr_i s' = ctr_i ?s1"
    using Cons.prems by (intro Cons.IH) auto
  then obtain s' where r: "scan ?s1 ts = Inr s'" "ctr_j s' = ctr_j ?s1 + length ts"
        "take (ctr_j s') (left_args s') = take (ctr_j ?s1) (left_args ?s1) @ map Ptr ts"
        "length (left_args s') = MAX_ARGS" "ctr_i s' = ctr_i ?s1"
    by blast
  have tk: "take (ctr_j ?s1) (left_args ?s1) = take (ctr_j s) (left_args s) @ [Ptr t]"
    using lt Cons.prems(5) by (simp add: take_Suc_conv_app_nth)
  from pt c r(1) have "scan s (t # ts) = Inr s'" by (simp add: plain_def)
  with r tk show ?case by simp
qed


lemma terminate_lists_Inr:
  assumes "terminate_lists s = Inr s'"
  shows "ctr_j s < MAX_ARGS" "ctr_i s < MAX_ARGS"
    "left_args s' = (left_args s)[ctr_j s := NULL]"
    "right_args s' = (right_args s)[ctr_j s := NULL]"
    "second_command s' = (second_command s)[ctr_i s := NULL]"
  using assms by (auto simp: terminate_lists_def store_def split: sum.splits if_splits)

lemma terminate_lists_background:
  "terminate_lists (s\<lparr>background := b\<rparr>) =
     (case terminate_lists s of Inl u \<Rightarrow> Inl u | Inr s' \<Rightarrow> Inr (s'\<lparr>background := b\<rparr>))"
  by (simp add: terminate_lists_def store_def)

lemma scan_second:
  "\<not> in_pipe s \<Longrightarrow> has_second_command s \<Longrightarrow> ''|'' \<notin> set ts \<Longrightarrow> ''&&'' \<notin> set ts \<Longrightarrow>
   scan s ts = Inr s' \<Longrightarrow> length (second_command s) = MAX_ARGS \<Longrightarrow>
   ctr_i s' = ctr_i s + length ts \<and>
   take (ctr_i s') (second_command s') = take (ctr_i s) (second_command s) @ map Ptr ts \<and>
   length (second_command s') = MAX_ARGS"
proof (induction ts arbitrary: s)
  case Nil
  then show ?case by simp
next
  case (Cons t ts)
  from Cons.prems obtain s1 where c: "consume s t = Inr s1" and r: "scan s1 ts = Inr s'"
    by (auto split: sum.splits)
  from Cons.prems(3,4) have nt: "''|'' \<notin> set ts" "''&&'' \<notin> set ts" "t \<noteq> ''|''" "t \<noteq> ''&&''"
    by auto
  from consume_flags[OF c] Cons.prems(1,2) nt have fl: "\<not> in_pipe s1" "has_second_command s1"
    by auto
  from consume_lengths[OF c] Cons.prems(6) have len: "length (second_command s1) = MAX_ARGS"
    by simp
  note IH = Cons.IH[OF fl nt(1,2) r len]
  from c nt(3,4) Cons.prems(1,2) have lt: "ctr_i s < MAX_ARGS"
    and e: "ctr_i s1 = ctr_i s + 1" "second_command s1 = (second_command s)[ctr_i s := Ptr t]"
    by (auto simp: consume_def store_def split: if_splits)
  have "take (ctr_i s1) (second_command s1) = take (ctr_i s) (second_command s) @ [Ptr t]"
    using lt Cons.prems(6) e by (simp add: take_Suc_conv_app_nth)
  with IH e show ?case by auto
qed

lemma initial_lengths:
  "length (left_args initial_pstate) = MAX_ARGS"
  "length (right_args initial_pstate) = MAX_ARGS"
  "length (second_command initial_pstate) = MAX_ARGS"
  by (simp_all add: initial_pstate_def)


text \<open>The sequence-secondary list of a line without \<open>|\<close>, read off after the last \<open>&&\<close>.\<close>

lemma second_list_after_last_and:
  assumes "classify (pre @ ''&&'' # post) = Inr s" and "''&'' \<notin> set pre"
    and "''|'' \<notin> set pre" and "''|'' \<notin> set post" and "''&&'' \<notin> set post"
  shows "c_argv (second_command s) = Some post"
proof -
  from assms(1) obtain s3 where sc: "scan initial_pstate (pre @ ''&&'' # post) = Inr s3"
    and tl: "terminate_lists s3 = Inr s"
    by (auto simp: classify_def split: sum.splits)
  have nb: "\<not> background initial_pstate" by (simp add: initial_pstate_def)
  have "''&&'' \<noteq> ''&''" by simp
  from scan_through_operator[OF sc assms(2) this] obtain s1 s2 where
    a: "scan initial_pstate pre = Inr s1" and nb1: "\<not> background s1"
    and c: "consume s1 ''&&'' = Inr s2" and d: "scan s2 post = Inr s3"
    by blast
  from scan_flags[OF nb a] nb1 assms(3) have "\<not> in_pipe s1" by (simp add: initial_pstate_def)
  with c have s2: "\<not> in_pipe s2" "has_second_command s2" "ctr_i s2 = 0"
    by (auto simp: consume_def store_def split: if_splits)
  from scan_lengths[OF a] consume_lengths[OF c] initial_lengths
  have len2: "length (second_command s2) = MAX_ARGS" by simp
  from scan_second[OF s2(1,2) assms(4,5) d len2] s2(3) have
    r: "take (ctr_i s3) (second_command s3) = map Ptr post"
       "length (second_command s3) = MAX_ARGS"
    by auto
  from terminate_lists_Inr[OF tl] r show ?thesis
    by (intro c_argv_take[where k = "ctr_i s3"]) auto
qed

text \<open>The primary list of a line that a \<open>&\<close> cuts short before any operator.\<close>

lemma classify_plain:
  assumes "\<forall>t \<in> set pre. plain t" and "length pre < MAX_ARGS"
  shows "\<exists>s. classify pre = Inr s \<and> \<not> background s \<and> \<not> in_pipe s \<and> \<not> has_second_command s \<and>
           c_argv (left_args s) = Some pre"
proof -
  have i: "\<not> in_pipe initial_pstate" "\<not> has_second_command initial_pstate"
    "ctr_j initial_pstate + length pre \<le> MAX_ARGS" "ctr_i initial_pstate = 0"
    "\<not> background initial_pstate"
    using assms(2) by (simp_all add: initial_pstate_def)
  from scan_plain_left[OF i(1,2) assms(1) i(3) initial_lengths(1)] obtain s1 where
    a: "scan initial_pstate pre = Inr s1" and j: "ctr_j s1 = length pre"
    and tk: "take (ctr_j s1) (left_args s1) = map Ptr pre"
    and len: "length (left_args s1) = MAX_ARGS" and ci: "ctr_i s1 = 0"
    by (auto simp: initial_pstate_def)
  from assms(1) have na: "''&'' \<notin> set pre" "''|'' \<notin> set pre" "''&&'' \<notin> set pre"
    by (auto simp: plain_def)
  from scan_no_amp[OF na(1) a] i(5) have nb1: "\<not> background s1" by simp
  from scan_flags[OF i(5) a] nb1 na i(1,2) have fl: "\<not> in_pipe s1" "\<not> has_second_command s1"
    by auto
  let ?s = "s1\<lparr>left_args := (left_args s1)[ctr_j s1 := NULL],
               right_args := (right_args s1)[ctr_j s1 := NULL],
               second_command := (second_command s1)[ctr_i s1 := NULL]\<rparr>"
  from j ci assms(2) have tl: "terminate_lists s1 = Inr ?s"
    by (simp add: terminate_lists_def store_def MAX_ARGS_def)
  have "c_argv (left_args ?s) = Some pre"
    using tk len j assms(2) by (intro c_argv_take[where k = "ctr_j s1"]) auto
  with a tl nb1 fl show ?thesis by (auto simp: classify_def)
qed

lemma classify_cut_by_amp:
  assumes "\<forall>t \<in> set pre. plain t"
  shows "classify (pre @ ''&'' # rest) =
           (case classify pre of Inl u \<Rightarrow> Inl u | Inr s \<Rightarrow> Inr (s\<lparr>background := True\<rparr>))"
proof -
  have nb: "\<not> background initial_pstate" by (simp add: initial_pstate_def)
  from assms have na: "''&'' \<notin> set pre" "''|'' \<notin> set pre" "''&&'' \<notin> set pre"
    by (auto simp: plain_def)
  show ?thesis
  proof (cases "scan initial_pstate pre")
    case (Inl u)
    with scan_append[OF nb, of pre "''&'' # rest"] show ?thesis by (simp add: classify_def)
  next
    case (Inr s1)
    from scan_no_amp[OF na(1) Inr] nb have nb1: "\<not> background s1" by simp
    from scan_flags[OF nb Inr] nb1 na have fl: "\<not> in_pipe s1" "\<not> has_second_command s1"
      by (auto simp: initial_pstate_def)
    from scan_append[OF nb, of pre "''&'' # rest"] Inr nb1 fl
    have "scan initial_pstate (pre @ ''&'' # rest) = Inr (s1\<lparr>background := True\<rparr>)" by simp
    with Inr show ?thesis by (simp add: classify_def terminate_lists_background)
  qed
qed

text \<open>
  After an operator has been seen, tokens other than \<open>|\<close> and \<open>&&\<close> leave the primary
  list alone; in pipeline mode each of them advances \<open>j\<close>, otherwise \<open>j\<close> stays.
\<close>

lemma scan_keeps_left:
  "in_pipe s \<or> has_second_command s \<Longrightarrow> ''|'' \<notin> set ts \<Longrightarrow> ''&&'' \<notin> set ts \<Longrightarrow>
   scan s ts = Inr s' \<Longrightarrow>
     left_args s' = left_args s \<and>
     ctr_j s' = (if in_pipe s then ctr_j s + length ts else ctr_j s)"
proof (induction ts arbitrary: s)
  case Nil
  then show ?case by simp
next
  case (Cons t ts)
  from Cons.prems obtain s1 where c: "consume s t = Inr s1" and r: "scan s1 ts = Inr s'"
    by (auto split: sum.splits)
  from Cons.prems(2,3) have nt: "t \<noteq> ''|''" "t \<noteq> ''&&''" "''|'' \<notin> set ts" "''&&'' \<notin> set ts"
    by auto
  from consume_flags[OF c] nt Cons.prems(1) have
    fl: "in_pipe s1 \<or> has_second_command s1" "in_pipe s1 = in_pipe s"
    by auto
  from c nt(1,2) Cons.prems(1) have
    e: "left_args s1 = left_args s" "ctr_j s1 = (if in_pipe s then ctr_j s + 1 else ctr_j s)"
    by (auto simp: consume_def store_def split: if_splits)
  from Cons.IH[OF fl(1) nt(3,4) r] e fl(2) show ?case by simp
qed

text \<open>Plain tokens before any operator, for a loop that got through them.\<close>

lemma scan_left:
  "\<not> in_pipe s \<Longrightarrow> \<not> has_second_command s \<Longrightarrow> \<forall>t \<in> set ts. plain t \<Longrightarrow>
   scan s ts = Inr s' \<Longrightarrow> length (left_args s) = MAX_ARGS \<Longrightarrow>
     ctr_j s' = ctr_j s + length ts \<and>
     take (ctr_j s') (left_args s') = take (ctr_j s) (left_args s) @ map Ptr ts \<and>
     length (left_args s') = MAX_ARGS"
proof (induction ts arbitrary: s)
  case Nil
  then show ?case by simp
next
  case (Cons t ts)
  from Cons.prems(3) have pt: "plain t" and pts: "\<forall>t \<in> set ts. plain t" by auto
  from pt Cons.prems(4) obtain s1 where c: "consume s t = Inr s1" and r: "scan s1 ts = Inr s'"
    by (auto simp: plain_def split: sum.splits)
  from consume_flags[OF c] pt Cons.prems(1,2) have fl: "\<not> in_pipe s1" "\<not> has_second_command s1"
    by (auto simp: plain_def)
  from consume_lengths[OF c] Cons.prems(5) have len: "length (left_args s1) = MAX_ARGS" by simp
  from c pt Cons.prems(1,2) have lt: "ctr_j s < MAX_ARGS"
    and e: "ctr_j s1 = ctr_j s + 1" "left_args s1 = (left_args s)[ctr_j s := Ptr t]"
    by (auto simp: consume_def store_def plain_def split: if_splits)
  have "take (ctr_j s1) (left_args s1) = take (ctr_j s) (left_args s) @ [Ptr t]"
    using lt Cons.prems(5) e by (simp add: take_Suc_conv_app_nth)
  with Cons.IH[OF fl pts r len] e show ?case by auto
qed

lemma c_argv_marked:
  assumes "take p l = map Ptr a" and "k \<le> p" and "k < length l'"
    and "take k l' = take k l" and "l' ! k = NULL"
  shows "c_argv l' = Some (take k a)"
proof -
  from assms(2) have "take k l = take k (take p l)" by (simp add: min_def)
  with assms(1,4) have "take k l' = map Ptr (take k a)" by (simp add: take_map)
  from this assms(3,5) show ?thesis by (rule c_argv_take)
qed

text \<open>What the loop does at a \<open>|\<close> or \<open>&&\<close> that it reaches, whatever came before.\<close>

lemma scan_up_to_operator:
  assumes "scan initial_pstate (pre @ opr # post) = Inr s3" and "''&'' \<notin> set pre"
    and "opr = ''|'' \<or> opr = ''&&''"
  shows "\<exists>s1. scan initial_pstate pre = Inr s1 \<and> \<not> background s1 \<and> ctr_j s1 < MAX_ARGS \<and>
           scan initial_pstate (pre @ [opr]) =
             Inr (if opr = ''|''
                  then s1\<lparr>in_pipe := True, left_args := (left_args s1)[ctr_j s1 := NULL], ctr_j := 0\<rparr>
                  else s1\<lparr>left_args := (left_args s1)[ctr_j s1 := NULL], ctr_i := 0,
                          has_second_command := True\<rparr>) \<and>
           scan (if opr = ''|''
                  then s1\<lparr>in_pipe := True, left_args := (left_args s1)[ctr_j s1 := NULL], ctr_j := 0\<rparr>
                  else s1\<lparr>left_args := (left_args s1)[ctr_j s1 := NULL], ctr_i := 0,
                          has_second_command := True\<rparr>) post = Inr s3"
proof -
  from assms(3) have na: "opr \<noteq> ''&''" by auto
  from scan_through_operator[OF assms(1,2) na] obtain s1 s2 where
    a: "scan initial_pstate pre = Inr s1" and nb1: "\<not> background s1"
    and c: "consume s1 opr = Inr s2" and d: "scan s2 post = Inr s3"
    by blast
  from c assms(3) have lt: "ctr_j s1 < MAX_ARGS"
    and s2: "s2 = (if opr = ''|''
                  then s1\<lparr>in_pipe := True, left_args := (left_args s1)[ctr_j s1 := NULL], ctr_j := 0\<rparr>
                  else s1\<lparr>left_args := (left_args s1)[ctr_j s1 := NULL], ctr_i := 0,
                          has_second_command := True\<rparr>)"
    by (auto simp: consume_def store_def split: if_splits)
  have nb: "\<not> background initial_pstate" by (simp add: initial_pstate_def)
  have "scan initial_pstate (pre @ [opr]) = Inr s2"
    using scan_append[OF nb, of pre "[opr]"] a nb1 na c by simp
  with a nb1 lt d s2 show ?thesis by auto
qed


text \<open>The primary list of \<open>A && B\<close> on a line without \<open>|\<close>.\<close>

lemma primary_of_sequence:
  assumes "classify (a @ ''&&'' # b) = Inr s" and "\<forall>t \<in> set a. plain t"
    and "''|'' \<notin> set b" and "''&&'' \<notin> set b"
  shows "c_argv (left_args s) = Some a"
proof -
  from assms(1) obtain s3 where sc: "scan initial_pstate (a @ ''&&'' # b) = Inr s3"
    and tl: "terminate_lists s3 = Inr s"
    by (auto simp: classify_def split: sum.splits)
  from assms(2) have na: "''&'' \<notin> set a" "''|'' \<notin> set a" by (auto simp: plain_def)
  from scan_up_to_operator[OF sc na(1)] obtain s1 where
    a: "scan initial_pstate a = Inr s1" and lt1: "ctr_j s1 < MAX_ARGS"
    and d: "scan (s1\<lparr>left_args := (left_args s1)[ctr_j s1 := NULL], ctr_i := 0,
                     has_second_command := True\<rparr>) b = Inr s3"
    by auto
  let ?s2 = "s1\<lparr>left_args := (left_args s1)[ctr_j s1 := NULL], ctr_i := 0,
                has_second_command := True\<rparr>"
  have i: "\<not> in_pipe initial_pstate" "\<not> has_second_command initial_pstate"
    "\<not> background initial_pstate" "ctr_j initial_pstate = 0"
    by (simp_all add: initial_pstate_def)
  from scan_left[OF i(1,2) assms(2) a initial_lengths(1)] i(4) have
    l1: "ctr_j s1 = length a" "take (length a) (left_args s1) = map Ptr a"
        "length (left_args s1) = MAX_ARGS"
    by auto
  from scan_no_amp[OF na(1) a] i(3) have nb1: "\<not> background s1" by simp
  from scan_flags[OF i(3) a] nb1 na(2) i(1) have np1: "\<not> in_pipe s1" by simp
  have ip2: "in_pipe ?s2 \<or> has_second_command ?s2" by simp
  from scan_keeps_left[OF ip2 assms(3,4) d] np1 have
    l3: "left_args s3 = (left_args s1)[ctr_j s1 := NULL]" "ctr_j s3 = ctr_j s1"
    by auto
  from terminate_lists_Inr[OF tl] have l6: "left_args s = (left_args s3)[ctr_j s3 := NULL]"
    by auto
  have fin: "left_args s = (left_args s1)[length a := NULL]" using l1(1) l3 l6 by simp
  have k2: "length a < length (left_args s)" using fin l1(1,3) lt1 by simp
  have k3: "take (length a) (left_args s) = take (length a) (left_args s1)" unfolding fin by simp
  have k4: "left_args s ! length a = NULL" unfolding fin using l1(1,3) lt1 by simp
  from c_argv_marked[OF l1(2) le_refl k2 k3 k4] show ?thesis by simp
qed

text \<open>Pipeline mode never goes with the background flag, nor does sequence mode.\<close>

lemma background_excludes_operators:
  "parse_line line = Inr s \<Longrightarrow> background s \<Longrightarrow> \<not> in_pipe s \<and> \<not> has_second_command s"
  using classify_flags[of "tokenize line" s] by (auto simp: parse_line_def split: if_splits)

section \<open>Facts about execution\<close>

lemma process_not_builtin:
  "parse_line line = Inr s \<Longrightarrow> \<not> is_builtin (left_args s ! 0) \<Longrightarrow>
     process_command_line w sh line = Inr (add_to_history line sh, execute w s)"
  by (simp add: process_command_line_def)

lemma execute_pipeline_foreground:
  "in_pipe s \<Longrightarrow> \<not> background s \<Longrightarrow> pipe_ret w = Some (rd, wr) \<Longrightarrow>
     execute w s =
       [E_Pipe (Some (rd, wr)),
        E_Fork [C_Close rd, C_Dup2 wr STDOUT_FILENO, C_Close wr,
                C_Execvp (left_args s ! 0) (left_args s), C_Perror ''execvp'', C_Exit EXIT_FAILURE]
               (fork1 w),
        E_Fork [C_Close wr, C_Dup2 rd STDIN_FILENO, C_Close rd,
                C_Execvp (right_args s ! 0) (right_args s), C_Perror ''execvp'', C_Exit EXIT_FAILURE]
               (fork2 w),
        E_Close rd, E_Close wr,
        E_Waitpid (fork_value (fork1 w)), E_Waitpid (fork_value (fork2 w))]"
  by (simp add: execute_def pipeline_children_def)

lemma run_sequence_command_foreground:
  "run_sequence_command args False (Forked pid) st =
     ((case st pid of Exited n \<Rightarrow> int n | Signaled sig \<Rightarrow> 0),
      [E_Fork (sequence_child args) (Forked pid), E_Waitpid pid])"
  by (simp add: run_sequence_command_def split: wstatus.splits)

text \<open>
  A foreground sequence whose primary child was created: the secondary command is
  started exactly when \<open>run_sequence_command\<close> returned 0 for the primary, which is the
  case for exit status 0 and for a child that did not exit normally.
\<close>

lemma execute_sequence_foreground:
  assumes "\<not> in_pipe s" and "has_second_command s" and "\<not> background s"
    and "fork1 w = Forked pid"
  shows "execute w s =
           [E_Fork (sequence_child (left_args s)) (Forked pid), E_Waitpid pid] @
           (if (case wait_status w pid of Exited n \<Rightarrow> n = 0 | Signaled sig \<Rightarrow> True)
            then snd (run_sequence_command (second_command s) False (fork2 w) (wait_status w))
            else [])"
  using assms
  by (simp add: execute_def run_sequence_command_foreground split: wstatus.splits)

lemma c_argv_first: "c_argv l = Some (x # xs) \<Longrightarrow> l ! 0 = Ptr x"
  by (cases l rule: c_argv.cases) auto

text \<open>
  The branch of the pipeline code that reports two identifiers instead of waiting is
  never taken.
\<close>

lemma no_background_pipeline_report:
  assumes "process_command_line w sh line = Inr (sh', evs)"
  shows "E_Printf_background2 p1 p2 \<notin> set evs"
proof -
  from assms obtain s where p: "parse_line line = Inr s"
    and evs: "evs = (if is_builtin (left_args s ! 0)
                     then execute_builtin_command (left_args s) (add_to_history line sh)
                     else execute w s)"
    by (auto simp: process_command_line_def Let_def split: sum.splits)
  have b: "E_Printf_background2 p1 p2 \<notin> set (execute_builtin_command args h)" for args h
    by (auto simp: execute_builtin_command_def history_listing_def Let_def)
  have r: "E_Printf_background2 p1 p2 \<notin> set (snd (run_sequence_command args bg fr st))"
    for args bg fr st
    by (cases fr) (auto simp: run_sequence_command_def Let_def split: wstatus.splits)
  have e: "E_Printf_background2 p1 p2 \<notin> set (execute w s)"
  proof (cases "in_pipe s")
    case True
    with background_excludes_operators[OF p] have "\<not> background s" by auto
    with True show ?thesis by (auto simp: execute_def split: option.splits)
  next
    case False
    obtain st evs1 where r1:
      "run_sequence_command (left_args s) (background s) (fork1 w) (wait_status w) = (st, evs1)"
      by (cases "run_sequence_command (left_args s) (background s) (fork1 w) (wait_status w)")
    from r[of "left_args s" "background s" "fork1 w" "wait_status w"] r1
    have "E_Printf_background2 p1 p2 \<notin> set evs1" by simp
    with False r1 r[of "second_command s" "background s" "fork2 w" "wait_status w"]
    show ?thesis by (simp add: execute_def)
  qed
  from b e evs show ?thesis by simp
qed

section \<open>Facts about the history\<close>

lemma shift_history_rows:
  assumes "length h = HISTORY_SIZE"
  shows "shift_history h = tl h @ [last h]"
proof -
  from assms obtain a0 a1 a2 a3 a4 a5 a6 a7 a8 a9 where
    h: "h = [a0, a1, a2, a3, a4, a5, a6, a7, a8, a9]"
    by (auto simp: HISTORY_SIZE_def numeral_eq_Suc length_Suc_conv)
  have "[0 ..< HISTORY_SIZE - 1] = [0, 1, 2, 3, 4, 5, 6, 7, 8]"
    by (simp add: HISTORY_SIZE_def upt_rec)
  then show ?thesis by (simp add: shift_history_def h)
qed

lemma add_to_history_keeps:
  assumes "length (history sh) = HISTORY_SIZE" and "history_count sh \<le> HISTORY_SIZE"
  shows "length (history (add_to_history c sh)) = HISTORY_SIZE"
    and "history_count (add_to_history c sh) = min (history_count sh + 1) HISTORY_SIZE"
    and "take (history_count (add_to_history c sh)) (history (add_to_history c sh)) =
           drop (history_count sh + 1 - HISTORY_SIZE) (take (history_count sh) (history sh))
           @ [strncpy_row c]"
proof -
  have pos: "Suc (HISTORY_SIZE - Suc 0) = HISTORY_SIZE" by (simp add: HISTORY_SIZE_def)
  show "length (history (add_to_history c sh)) = HISTORY_SIZE"
    using assms pos by (simp add: add_to_history_def shift_history_rows)
  show "history_count (add_to_history c sh) = min (history_count sh + 1) HISTORY_SIZE"
    using assms by (simp add: add_to_history_def)
  show "take (history_count (add_to_history c sh)) (history (add_to_history c sh)) =
           drop (history_count sh + 1 - HISTORY_SIZE) (take (history_count sh) (history sh))
           @ [strncpy_row c]"
  proof (cases "history_count sh = HISTORY_SIZE")
    case True
    have n: "HISTORY_SIZE = 10" by (simp add: HISTORY_SIZE_def)
    have sh: "shift_history (history sh) = tl (history sh) @ [last (history sh)]"
      using assms(1) by (rule shift_history_rows)
    have len: "length (tl (history sh)) = 9" using assms(1) n by simp
    have upd: "(tl (history sh) @ [last (history sh)])[9 := strncpy_row c] =
                 tl (history sh) @ [strncpy_row c]"
      using len by (simp add: list_update_append)
    have hist: "history (add_to_history c sh) = tl (history sh) @ [strncpy_row c]"
      using True sh upd by (simp add: add_to_history_def HISTORY_SIZE_def)
    have cnt: "history_count (add_to_history c sh) = 10"
      using True n by (simp add: add_to_history_def)
    have "drop (history_count sh + 1 - HISTORY_SIZE) (take (history_count sh) (history sh)) =
            tl (history sh)"
      using True n assms(1) by (simp add: drop_Suc)
    with hist cnt len show ?thesis by simp
  next
    case False
    with assms have "history_count sh < length (history sh)" by simp
    then have "take (Suc (history_count sh)) ((history sh)[history_count sh := strncpy_row c]) =
                 take (history_count sh) (history sh) @ [strncpy_row c]"
      by (simp add: take_Suc_conv_app_nth)
    with False assms show ?thesis by (simp add: add_to_history_def)
  qed
qed

text \<open>
  After any number of lines the buffer is full up to \<open>history_count\<close>, which is the
  number of lines capped at \<open>HISTORY_SIZE\<close>, and holds the last lines in their order.
\<close>

lemma history_after:
  "length (history (fold add_to_history ls initial_shell)) = HISTORY_SIZE \<and>
   history_count (fold add_to_history ls initial_shell) = min (length ls) HISTORY_SIZE \<and>
   take (history_count (fold add_to_history ls initial_shell))
        (history (fold add_to_history ls initial_shell)) =
     drop (length ls - HISTORY_SIZE) (map strncpy_row ls)"
proof (induction ls rule: rev_induct)
  case Nil
  show ?case by (simp add: initial_shell_def)
next
  case (snoc c ls)
  let ?sh = "fold add_to_history ls initial_shell"
  from snoc have inv: "length (history ?sh) = HISTORY_SIZE"
    "history_count ?sh = min (length ls) HISTORY_SIZE"
    "take (history_count ?sh) (history ?sh) = drop (length ls - HISTORY_SIZE) (map strncpy_row ls)"
    by blast+
  from inv(2) have le: "history_count ?sh \<le> HISTORY_SIZE" by simp
  note k = add_to_history_keeps[OF inv(1) le, of c]
  have "drop (history_count ?sh + 1 - HISTORY_SIZE) (take (history_count ?sh) (history ?sh)) =
          drop (length ls + 1 - HISTORY_SIZE) (map strncpy_row ls)"
  proof (cases "length ls < HISTORY_SIZE")
    case True
    with inv(2,3) show ?thesis by simp
  next
    case False
    then have c: "history_count ?sh = HISTORY_SIZE" using inv(2) by simp
    from False have "1 + (length ls - HISTORY_SIZE) = length ls + 1 - HISTORY_SIZE" by arith
    then have "drop 1 (drop (length ls - HISTORY_SIZE) (map strncpy_row ls)) =
                 drop (length ls + 1 - HISTORY_SIZE) (map strncpy_row ls)"
      by (simp only: drop_drop)
    with inv(3) c show ?thesis by simp
  qed
  with k(3) have t: "take (history_count (add_to_history c ?sh)) (history (add_to_history c ?sh)) =
          drop (length ls + 1 - HISTORY_SIZE) (map strncpy_row ls) @ [strncpy_row c]"
    by simp
  have "length ls + 1 - HISTORY_SIZE \<le> length (map strncpy_row ls)"
    by (simp add: HISTORY_SIZE_def)
  then have "drop (length ls + 1 - HISTORY_SIZE) (map strncpy_row ls) @ [strncpy_row c] =
               drop (length (ls @ [c]) - HISTORY_SIZE) (map strncpy_row (ls @ [c]))"
    by simp
  with t have c3: "take (history_count (add_to_history c ?sh)) (history (add_to_history c ?sh)) =
          drop (length (ls @ [c]) - HISTORY_SIZE) (map strncpy_row (ls @ [c]))"
    by simp
  have c2: "history_count (add_to_history c ?sh) = min (length (ls @ [c])) HISTORY_SIZE"
    using k(2) inv(2) by simp
  have f: "fold add_to_history (ls @ [c]) initial_shell = add_to_history c ?sh" by simp
  from k(1) c2 c3 show ?case unfolding f by blast
qed

lemma history_listing_take:
  "history_count sh \<le> HISTORY_SIZE \<Longrightarrow>
   history_listing sh =
     map (\<lambda>k. E_Printf_history (k + 1) (take (history_count sh) (history sh) ! k))
         [0 ..< history_count sh]"
  by (simp add: history_listing_def)

section \<open>C1: the pipeline and sequence flags\<close>

text \<open>
  C1 says that no line yields both flags, not even \<open>A | B && C\<close>. The loop sets the two
  flags independently; on \<open>A | B && C\<close> both end up set.
\<close>

theorem both_flags_counterexample:
  "parse_line ''A | B && C'' =
     Inr \<lparr>ctr_i = 0, ctr_j = 2, in_pipe = True, background = False, has_second_command = True,
          left_args = slots [Ptr ''A'', NULL, NULL],
          right_args = slots [Ptr ''B'', Ptr ''C'', NULL],
          second_command = slots [NULL]\<rparr>"
  by code_simp

text \<open>
  C1, amended: both flags are set exactly when the loop was not stopped by a \<open>&\<close> and the
  line holds a \<open>|\<close> token as well as a \<open>&&\<close> token; on every other line at most one of
  them is set.
\<close>

theorem both_flags_iff:
  "parse_line line = Inr s \<Longrightarrow>
     (in_pipe s \<and> has_second_command s) =
     (''|'' \<in> set (tokenize line) \<and> ''&&'' \<in> set (tokenize line) \<and> \<not> background s)"
  using classify_flags[of "tokenize line" s] by (auto simp: parse_line_def split: if_splits)

theorem both_flags_iff_witness:
  "parse_line ''ls -l | wc -l'' =
     Inr \<lparr>ctr_i = 0, ctr_j = 2, in_pipe = True, background = False, has_second_command = False,
          left_args = slots [Ptr ''ls'', Ptr ''-l'', NULL],
          right_args = slots [Ptr ''wc'', Ptr ''-l'', NULL],
          second_command = slots [NULL]\<rparr> \<and>
   \<not> (''|'' \<in> set (tokenize ''ls -l | wc -l'') \<and> ''&&'' \<in> set (tokenize ''ls -l | wc -l''))"
proof -
  let ?s = "\<lparr>ctr_i = 0, ctr_j = 2, in_pipe = True, background = False, has_second_command = False,
          left_args = slots [Ptr ''ls'', Ptr ''-l'', NULL],
          right_args = slots [Ptr ''wc'', Ptr ''-l'', NULL],
          second_command = slots [NULL]\<rparr>"
  have h: "parse_line ''ls -l | wc -l'' = Inr ?s" by code_simp
  from both_flags_iff[OF h] h show ?thesis by simp
qed

section \<open>C2: a line whose primary command is empty\<close>

text \<open>
  C2 says that such a line creates no child process. Nothing in
  \<open>process_command_line\<close> tests for an empty primary command before executing: on the
  empty line it calls \<open>run_sequence_command\<close>, which forks a child that calls
  \<open>execvp\<close> with the null pointer, and waits for that child; on \<open>| wc\<close> it creates the
  pipe and both children, the first of which calls \<open>execvp\<close> with the null pointer.
\<close>

theorem empty_line_forks_a_child:
  "process_command_line (sample_os (exits_with 1)) initial_shell [] =
     Inr (add_to_history [] initial_shell,
          [E_Fork [C_Execvp NULL (slots [NULL]),
                   C_Fprintf_stderr ''Error: Command not found'',
                   C_Exit EXIT_FAILURE]
                  (Forked 100),
           E_Waitpid 100]) \<and>
   process_command_line (sample_os (exits_with 1)) initial_shell ''| wc'' =
     Inr (add_to_history ''| wc'' initial_shell,
          [E_Pipe (Some (3, 4)),
           E_Fork [C_Close 3, C_Dup2 4 STDOUT_FILENO, C_Close 4,
                   C_Execvp NULL (slots [NULL, NULL]),
                   C_Perror ''execvp'', C_Exit EXIT_FAILURE]
                  (Forked 100),
           E_Fork [C_Close 4, C_Dup2 3 STDIN_FILENO, C_Close 3,
                   C_Execvp (Ptr ''wc'') (slots [Ptr ''wc'', NULL]),
                   C_Perror ''execvp'', C_Exit EXIT_FAILURE]
                  (Forked 101),
           E_Close 3, E_Close 4, E_Waitpid 100, E_Waitpid 101])"
  by code_simp

section \<open>C3: the capacity of the argument arrays\<close>

text \<open>
  C3 says that a line with too many tokens is rejected by a capacity check and that
  nothing is stored at an index from \<open>MAX_ARGS\<close> on. The loop has no such check: on a
  line of twelve words the twelfth is stored at \<open>left_args[11]\<close>, past the end of the
  array.
\<close>

theorem twelve_words_store_past_end:
  "parse_line ''a b c d e f g h i j k l'' = Inl (Store_Past_End Left_args 11) \<and>
   \<not> 11 < MAX_ARGS"
  by code_simp

section \<open>C4: \<open>&\<close> after a pipe\<close>

text \<open>
  C4 says that \<open>A | B &\<close> sets both \<open>pipeline\<close> and \<open>background\<close>, that both children's
  identifiers are reported and that neither child is waited for. The pipeline code has
  the branch for it (report both identifiers instead of waiting), but the loop
  recognises \<open>&\<close> only under \<open>!in_pipe && !has_second_command\<close>: on \<open>A | B &\<close> the \<open>&\<close> is
  stored as an argument of \<open>B\<close>, \<open>background\<close> stays 0, both children are waited for and
  nothing is reported.
\<close>

theorem pipe_then_ampersand_is_waited_for:
  "parse_line ''A | B &'' =
     Inr \<lparr>ctr_i = 0, ctr_j = 2, in_pipe = True, background = False, has_second_command = False,
          left_args = slots [Ptr ''A'', NULL, NULL],
          right_args = slots [Ptr ''B'', Ptr ''&'', NULL],
          second_command = slots [NULL]\<rparr> \<and>
   process_command_line (sample_os (exits_with 0)) initial_shell ''A | B &'' =
     Inr (add_to_history ''A | B &'' initial_shell,
          [E_Pipe (Some (3, 4)),
           E_Fork [C_Close 3, C_Dup2 4 STDOUT_FILENO, C_Close 4,
                   C_Execvp (Ptr ''A'') (slots [Ptr ''A'', NULL, NULL]),
                   C_Perror ''execvp'', C_Exit EXIT_FAILURE]
                  (Forked 100),
           E_Fork [C_Close 4, C_Dup2 3 STDIN_FILENO, C_Close 3,
                   C_Execvp (Ptr ''B'') (slots [Ptr ''B'', Ptr ''&'', NULL]),
                   C_Perror ''execvp'', C_Exit EXIT_FAILURE]
                  (Forked 101),
           E_Close 3, E_Close 4, E_Waitpid 100, E_Waitpid 101])"
  by code_simp

section \<open>C5: the secondary command of a sequence\<close>

text \<open>
  C5 says that in \<open>A && B\<close> the command \<open>B\<close> runs if and only if \<open>A\<close> terminates with
  exit status 0. \<open>run_sequence_command\<close> returns \<open>WEXITSTATUS\<close> only under
  \<open>WIFEXITED\<close> and otherwise falls through to \<open>return 0\<close>, whose comment reads
  "success or background mode": when \<open>sleep 100\<close> is killed by signal 9, \<open>echo hi\<close> is
  started all the same.
\<close>

theorem killed_primary_starts_secondary:
  "process_command_line (sample_os (killed_by 9)) initial_shell ''sleep 100 && echo hi'' =
     Inr (add_to_history ''sleep 100 && echo hi'' initial_shell,
          [E_Fork [C_Execvp (Ptr ''sleep'') (slots [Ptr ''sleep'', Ptr ''100'', NULL]),
                   C_Fprintf_stderr ''Error: Command not found'', C_Exit EXIT_FAILURE]
                  (Forked 100),
           E_Waitpid 100,
           E_Fork [C_Execvp (Ptr ''echo'') (slots [Ptr ''echo'', Ptr ''hi'', NULL]),
                   C_Fprintf_stderr ''Error: Command not found'', C_Exit EXIT_FAILURE]
                  (Forked 101),
           E_Waitpid 101])"
  by code_simp

section \<open>C6: operator tokens after the first operator\<close>




section \<open>C7: a pipeline in the foreground\<close>

text \<open>
  C7: on a line \<open>A | B\<close> (no \<open>&\<close> before the \<open>|\<close>, primary command not a builtin) for
  which \<open>pipe\<close> and both calls of \<open>fork\<close> succeed, the line is run in the foreground.
  The first child closes the read end, makes the write end its standard output, closes
  the write end and executes the primary command; the second child closes the write
  end, makes the read end its standard input, closes the read end and executes the
  secondary command. After both calls of \<open>fork\<close> the parent closes both ends and then
  waits for the first and for the second child.
\<close>

theorem foreground_pipeline:
  assumes "tokenize line = A @ ''|'' # B" and "''&'' \<notin> set A"
    and "parse_line line = Inr s" and "\<not> is_builtin (left_args s ! 0)"
    and "pipe_ret w = Some (rd, wr)" and "fork1 w = Forked pid1" and "fork2 w = Forked pid2"
  shows "in_pipe s \<and> \<not> background s \<and>
         process_command_line w sh line =
           Inr (add_to_history line sh,
                [E_Pipe (Some (rd, wr)),
                 E_Fork [C_Close rd, C_Dup2 wr STDOUT_FILENO, C_Close wr,
                         C_Execvp (left_args s ! 0) (left_args s),
                         C_Perror ''execvp'', C_Exit EXIT_FAILURE]
                        (Forked pid1),
                 E_Fork [C_Close wr, C_Dup2 rd STDIN_FILENO, C_Close rd,
                         C_Execvp (right_args s ! 0) (right_args s),
                         C_Perror ''execvp'', C_Exit EXIT_FAILURE]
                        (Forked pid2),
                 E_Close rd, E_Close wr, E_Waitpid pid1, E_Waitpid pid2])"
proof -
  from assms(1,3) have c: "classify (A @ ''|'' # B) = Inr s" by (simp add: parse_line_def)
  from operator_line[OF c assms(2)] have fl: "in_pipe s" "\<not> background s" by simp_all
  from process_not_builtin[OF assms(3,4)] execute_pipeline_foreground[OF fl assms(5)] assms(6,7) fl
  show ?thesis by simp
qed

theorem foreground_pipeline_witness:
  "tokenize ''ls -l | wc -l'' = [''ls'', ''-l''] @ ''|'' # [''wc'', ''-l''] \<and>
   ''&'' \<notin> set [''ls'', ''-l''] \<and>
   parse_line ''ls -l | wc -l'' =
     Inr \<lparr>ctr_i = 0, ctr_j = 2, in_pipe = True, background = False, has_second_command = False,
          left_args = slots [Ptr ''ls'', Ptr ''-l'', NULL],
          right_args = slots [Ptr ''wc'', Ptr ''-l'', NULL],
          second_command = slots [NULL]\<rparr> \<and>
   \<not> is_builtin (Ptr ''ls'') \<and>
   pipe_ret (sample_os (exits_with 0)) = Some (3, 4) \<and>
   fork1 (sample_os (exits_with 0)) = Forked 100 \<and>
   fork2 (sample_os (exits_with 0)) = Forked 101 \<and>
   process_command_line (sample_os (exits_with 0)) initial_shell ''ls -l | wc -l'' =
     Inr (add_to_history ''ls -l | wc -l'' initial_shell,
          [E_Pipe (Some (3, 4)),
           E_Fork [C_Close 3, C_Dup2 4 STDOUT_FILENO, C_Close 4,
                   C_Execvp (Ptr ''ls'') (slots [Ptr ''ls'', Ptr ''-l'', NULL]),
                   C_Perror ''execvp'', C_Exit EXIT_FAILURE]
                  (Forked 100),
           E_Fork [C_Close 4, C_Dup2 3 STDIN_FILENO, C_Close 3,
                   C_Execvp (Ptr ''wc'') (slots [Ptr ''wc'', Ptr ''-l'', NULL]),
                   C_Perror ''execvp'', C_Exit EXIT_FAILURE]
                  (Forked 101),
           E_Close 3, E_Close 4, E_Waitpid 100, E_Waitpid 101])"
proof -
  let ?s = "\<lparr>ctr_i = 0, ctr_j = 2, in_pipe = True, background = False, has_second_command = False,
          left_args = slots [Ptr ''ls'', Ptr ''-l'', NULL],
          right_args = slots [Ptr ''wc'', Ptr ''-l'', NULL],
          second_command = slots [NULL]\<rparr>"
  have h1: "tokenize ''ls -l | wc -l'' = [''ls'', ''-l''] @ ''|'' # [''wc'', ''-l'']" by code_simp
  have h2: "''&'' \<notin> set [''ls'', ''-l'']" by simp
  have h3: "parse_line ''ls -l | wc -l'' = Inr ?s" by code_simp
  have n: "left_args ?s ! 0 = Ptr ''ls''" "right_args ?s ! 0 = Ptr ''wc''"
    by (simp_all add: slots_def)
  have h4: "\<not> is_builtin (left_args ?s ! 0)" "\<not> is_builtin (Ptr ''ls'')"
    by (simp_all add: is_builtin_def slots_def)
  have h5: "pipe_ret (sample_os (exits_with 0)) = Some (3, 4)"
    and h6: "fork1 (sample_os (exits_with 0)) = Forked 100"
    and h7: "fork2 (sample_os (exits_with 0)) = Forked 101"
    by (simp_all add: sample_os_def)
  from foreground_pipeline[OF h1 h2 h3 h4(1) h5 h6 h7, of initial_shell] n
  have "process_command_line (sample_os (exits_with 0)) initial_shell ''ls -l | wc -l'' =
     Inr (add_to_history ''ls -l | wc -l'' initial_shell,
          [E_Pipe (Some (3, 4)),
           E_Fork [C_Close 3, C_Dup2 4 STDOUT_FILENO, C_Close 4,
                   C_Execvp (Ptr ''ls'') (slots [Ptr ''ls'', Ptr ''-l'', NULL]),
                   C_Perror ''execvp'', C_Exit EXIT_FAILURE]
                  (Forked 100),
           E_Fork [C_Close 4, C_Dup2 3 STDIN_FILENO, C_Close 3,
                   C_Execvp (Ptr ''wc'') (slots [Ptr ''wc'', Ptr ''-l'', NULL]),
                   C_Perror ''execvp'', C_Exit EXIT_FAILURE]
                  (Forked 101),
           E_Close 3, E_Close 4, E_Waitpid 100, E_Waitpid 101])"
    by simp
  with h1 h2 h3 h4(2) h5 h6 h7 show ?thesis by simp
qed

section \<open>C8: a \<open>&\<close> before any operator\<close>

text \<open>
  C8: when the first \<open>&\<close> of a line comes before any \<open>|\<close> or \<open>&&\<close>, the classifier sets
  \<open>background\<close> and looks at no further token: the outcome is that of the tokens before
  the \<open>&\<close> with the flag set, whatever follows the \<open>&\<close>. When those tokens fit the array
  (fewer than \<open>MAX_ARGS\<close> of them) they are the primary command.
\<close>

theorem ampersand_stops_scan:
  assumes "tokenize line = pre @ ''&'' # rest" and "\<forall>t \<in> set pre. plain t"
  shows "parse_line line =
           (case classify pre of Inl u \<Rightarrow> Inl u | Inr s \<Rightarrow> Inr (s\<lparr>background := True\<rparr>)) \<and>
         (length pre < MAX_ARGS \<longrightarrow>
            (\<exists>s. parse_line line = Inr s \<and> background s \<and> \<not> in_pipe s \<and>
                 \<not> has_second_command s \<and> c_argv (left_args s) = Some pre))"
proof -
  have e: "parse_line line =
           (case classify pre of Inl u \<Rightarrow> Inl u | Inr s \<Rightarrow> Inr (s\<lparr>background := True\<rparr>))"
    using assms(1) classify_cut_by_amp[OF assms(2)] by (simp add: parse_line_def)
  moreover have "\<exists>s. parse_line line = Inr s \<and> background s \<and> \<not> in_pipe s \<and>
                 \<not> has_second_command s \<and> c_argv (left_args s) = Some pre"
    if "length pre < MAX_ARGS"
  proof -
    from classify_plain[OF assms(2) that] obtain s0 where
      "classify pre = Inr s0" "\<not> in_pipe s0" "\<not> has_second_command s0"
      "c_argv (left_args s0) = Some pre"
      by blast
    with e show ?thesis by simp
  qed
  ultimately show ?thesis by blast
qed

theorem ampersand_stops_scan_witness:
  "tokenize ''cmd1 & cmd2'' = [''cmd1''] @ ''&'' # [''cmd2''] \<and>
   plain ''cmd1'' \<and>
   length [''cmd1''] < MAX_ARGS \<and>
   parse_line ''cmd1 & cmd2'' =
     Inr \<lparr>ctr_i = 0, ctr_j = 1, in_pipe = False, background = True, has_second_command = False,
          left_args = slots [Ptr ''cmd1'', NULL],
          right_args = slots [Garbage, NULL],
          second_command = slots [NULL]\<rparr>"
proof -
  have h1: "tokenize ''cmd1 & cmd2'' = [''cmd1''] @ ''&'' # [''cmd2'']" by code_simp
  have h2: "\<forall>t \<in> set [''cmd1'']. plain t" by (simp add: plain_def)
  have h3: "length [''cmd1''] < MAX_ARGS" by (simp add: MAX_ARGS_def)
  have c: "classify [''cmd1''] =
     Inr \<lparr>ctr_i = 0, ctr_j = 1, in_pipe = False, background = False, has_second_command = False,
          left_args = slots [Ptr ''cmd1'', NULL],
          right_args = slots [Garbage, NULL],
          second_command = slots [NULL]\<rparr>"
    by code_simp
  from ampersand_stops_scan[OF h1 h2] c have
    "parse_line ''cmd1 & cmd2'' =
     Inr \<lparr>ctr_i = 0, ctr_j = 1, in_pipe = False, background = True, has_second_command = False,
          left_args = slots [Ptr ''cmd1'', NULL],
          right_args = slots [Garbage, NULL],
          second_command = slots [NULL]\<rparr>"
    by simp
  with h1 h2 h3 show ?thesis by simp
qed

section \<open>C9: the history keeps the last ten lines\<close>

text \<open>
  C9: \<open>process_command_line\<close> appends the line it is given to the history, once, before
  anything else. After the lines \<open>ls\<close>, submitted to the empty history, the buffer holds
  \<open>min (length ls) HISTORY_SIZE\<close> entries, namely the last ones in submission order (each
  cut to 99 characters, which leaves a line read by \<open>main\<close> as it is), and the listing
  numbers them from 1. For twelve lines these are the lines 3 to 12, numbered 1 to 10.
\<close>

theorem history_keeps_last_ten:
  "(process_command_line w sh line = Inr (sh', evs) \<longrightarrow> sh' = add_to_history line sh) \<and>
   history_count (fold add_to_history ls initial_shell) = min (length ls) HISTORY_SIZE \<and>
   take (history_count (fold add_to_history ls initial_shell))
        (history (fold add_to_history ls initial_shell)) =
     drop (length ls - HISTORY_SIZE) (map strncpy_row ls) \<and>
   history_listing (fold add_to_history ls initial_shell) =
     map (\<lambda>k. E_Printf_history (k + 1) (drop (length ls - HISTORY_SIZE) (map strncpy_row ls) ! k))
         [0 ..< min (length ls) HISTORY_SIZE] \<and>
   (length line < MAX_COMMAND_LENGTH \<longrightarrow> strncpy_row line = line) \<and>
   (length ls = 12 \<longrightarrow>
      history_listing (fold add_to_history ls initial_shell) =
        map (\<lambda>k. E_Printf_history (k + 1) (strncpy_row (ls ! (k + 2)))) [0 ..< 10])"
proof -
  let ?sh = "fold add_to_history ls initial_shell"
  let ?kept = "drop (length ls - HISTORY_SIZE) (map strncpy_row ls)"
  note inv = history_after[of ls]
  have a: "process_command_line w sh line = Inr (sh', evs) \<longrightarrow> sh' = add_to_history line sh"
    by (auto simp: process_command_line_def Let_def split: sum.splits)
  from inv have le: "history_count ?sh \<le> HISTORY_SIZE" by simp
  from inv have inv2: "history_count ?sh = min (length ls) HISTORY_SIZE"
    and inv3: "take (history_count ?sh) (history ?sh) = ?kept"
    by blast+
  have "history_listing ?sh =
     map (\<lambda>k. E_Printf_history (k + 1) (take (history_count ?sh) (history ?sh) ! k))
         [0 ..< history_count ?sh]"
    using le by (rule history_listing_take)
  also have "\<dots> = map (\<lambda>k. E_Printf_history (k + 1) (?kept ! k)) [0 ..< history_count ?sh]"
    by (simp only: inv3)
  also have "\<dots> = map (\<lambda>k. E_Printf_history (k + 1) (?kept ! k))
                       [0 ..< min (length ls) HISTORY_SIZE]"
    by (simp only: inv2)
  finally have l: "history_listing ?sh =
     map (\<lambda>k. E_Printf_history (k + 1) (?kept ! k)) [0 ..< min (length ls) HISTORY_SIZE]" .
  have r: "length line < MAX_COMMAND_LENGTH \<longrightarrow> strncpy_row line = line"
    by (simp add: strncpy_row_def MAX_COMMAND_LENGTH_def)
  have t: "history_listing ?sh =
        map (\<lambda>k. E_Printf_history (k + 1) (strncpy_row (ls ! (k + 2)))) [0 ..< 10]"
    if twelve: "length ls = 12"
  proof -
    have m: "min (length ls) HISTORY_SIZE = 10" using twelve by (simp add: HISTORY_SIZE_def)
    have "?kept ! k = strncpy_row (ls ! (k + 2))" if "k < 10" for k
      using that twelve by (simp add: HISTORY_SIZE_def add.commute)
    then have "map (\<lambda>k. E_Printf_history (k + 1) (?kept ! k)) [0 ..< 10] =
               map (\<lambda>k. E_Printf_history (k + 1) (strncpy_row (ls ! (k + 2)))) [0 ..< 10]"
      by (intro map_cong) auto
    with l m show ?thesis by simp
  qed
  from a inv l r t show ?thesis by blast
qed

theorem history_keeps_last_ten_witness:
  "process_command_line (sample_os (exits_with 0))
     (fold add_to_history
        [''l1'', ''l2'', ''l3'', ''l4'', ''l5'', ''l6'', ''l7'', ''l8'', ''l9'', ''l10'', ''l11'']
        initial_shell)
     ''history'' =
   Inr (fold add_to_history
          [''l1'', ''l2'', ''l3'', ''l4'', ''l5'', ''l6'', ''l7'', ''l8'', ''l9'', ''l10'', ''l11'',
           ''history'']
          initial_shell,
        [E_Printf_history 1 ''l3'', E_Printf_history 2 ''l4'', E_Printf_history 3 ''l5'',
         E_Printf_history 4 ''l6'', E_Printf_history 5 ''l7'', E_Printf_history 6 ''l8'',
         E_Printf_history 7 ''l9'', E_Printf_history 8 ''l10'', E_Printf_history 9 ''l11'',
         E_Printf_history 10 ''history'']) \<and>
   length ''history'' < MAX_COMMAND_LENGTH \<and>
   length [''l1'', ''l2'', ''l3'', ''l4'', ''l5'', ''l6'', ''l7'', ''l8'', ''l9'', ''l10'', ''l11'',
           ''history''] = 12 \<and>
   history_listing
     (fold add_to_history
        [''l1'', ''l2'', ''l3'', ''l4'', ''l5'', ''l6'', ''l7'', ''l8'', ''l9'', ''l10'', ''l11'',
         ''history'']
        initial_shell) =
     [E_Printf_history 1 ''l3'', E_Printf_history 2 ''l4'', E_Printf_history 3 ''l5'',
      E_Printf_history 4 ''l6'', E_Printf_history 5 ''l7'', E_Printf_history 6 ''l8'',
      E_Printf_history 7 ''l9'', E_Printf_history 8 ''l10'', E_Printf_history 9 ''l11'',
      E_Printf_history 10 ''history'']"
proof -
  let ?before = "[''l1'', ''l2'', ''l3'', ''l4'', ''l5'', ''l6'', ''l7'', ''l8'', ''l9'', ''l10'', ''l11'']"
  let ?ls = "[''l1'', ''l2'', ''l3'', ''l4'', ''l5'', ''l6'', ''l7'', ''l8'', ''l9'', ''l10'', ''l11'',
           ''history'']"
  let ?out = "[E_Printf_history 1 ''l3'', E_Printf_history 2 ''l4'', E_Printf_history 3 ''l5'',
         E_Printf_history 4 ''l6'', E_Printf_history 5 ''l7'', E_Printf_history 6 ''l8'',
         E_Printf_history 7 ''l9'', E_Printf_history 8 ''l10'', E_Printf_history 9 ''l11'',
         E_Printf_history 10 ''history'']"
  have p: "process_command_line (sample_os (exits_with 0))
             (fold add_to_history ?before initial_shell) ''history'' =
           Inr (fold add_to_history ?ls initial_shell, ?out)"
    by code_simp
  have h1: "length ''history'' < MAX_COMMAND_LENGTH" by (simp add: MAX_COMMAND_LENGTH_def)
  have h2: "length ?ls = 12" by simp
  have rhs: "map (\<lambda>k. E_Printf_history (k + 1) (strncpy_row (?ls ! (k + 2)))) [0 ..< 10] = ?out"
    by code_simp
  from history_keeps_last_ten[of "sample_os (exits_with 0)"
      "fold add_to_history ?before initial_shell" "''history''"
      "fold add_to_history ?ls initial_shell" ?out ?ls] h2
  have "history_listing (fold add_to_history ?ls initial_shell) =
          map (\<lambda>k. E_Printf_history (k + 1) (strncpy_row (?ls ! (k + 2)))) [0 ..< 10]"
    by blast
  from this rhs have "history_listing (fold add_to_history ?ls initial_shell) = ?out"
    by (rule trans)
  with p h1 h2 show ?thesis by blast
qed

section \<open>C10: a primary command killed by a signal\<close>

text \<open>
  C10: on a foreground line \<open>A && B\<close> (\<open>A\<close> plain words that are not a builtin, no \<open>|\<close>
  and no further \<open>&&\<close> in \<open>B\<close>) whose primary child is created and then killed by a
  signal, \<open>run_sequence_command\<close> returns 0 for the primary command; the parent then
  forks a second child, whose program is \<open>execvp\<close> of the argument vector \<open>B\<close>, and waits
  for it. The whole line runs as it does when the primary child exits with status 0.
\<close>

theorem signalled_primary_counts_as_success:
  assumes "tokenize line = A @ ''&&'' # B" and "\<forall>t \<in> set A. plain t"
    and "''|'' \<notin> set B" and "''&&'' \<notin> set B"
    and "parse_line line = Inr s" and "\<not> is_builtin (left_args s ! 0)"
    and "fork1 w = Forked pid" and "wait_status w pid = Signaled sig"
    and "fork2 w = Forked pid2"
  shows "\<not> background s \<and>
         c_argv (left_args s) = Some A \<and>
         c_argv (second_command s) = Some B \<and>
         (B \<noteq> [] \<longrightarrow> second_command s ! 0 = Ptr (hd B)) \<and>
         run_sequence_command (left_args s) (background s) (fork1 w) (wait_status w) =
           (0, [E_Fork [C_Execvp (left_args s ! 0) (left_args s),
                        C_Fprintf_stderr ''Error: Command not found'', C_Exit EXIT_FAILURE]
                       (Forked pid),
                E_Waitpid pid]) \<and>
         process_command_line w sh line =
           Inr (add_to_history line sh,
                [E_Fork [C_Execvp (left_args s ! 0) (left_args s),
                         C_Fprintf_stderr ''Error: Command not found'', C_Exit EXIT_FAILURE]
                        (Forked pid),
                 E_Waitpid pid,
                 E_Fork [C_Execvp (second_command s ! 0) (second_command s),
                         C_Fprintf_stderr ''Error: Command not found'', C_Exit EXIT_FAILURE]
                        (Forked pid2),
                 E_Waitpid pid2]) \<and>
         process_command_line w sh line =
           process_command_line (w\<lparr>wait_status := (wait_status w)(pid := Exited 0)\<rparr>) sh line"
proof -
  from assms(1,5) have c: "classify (A @ ''&&'' # B) = Inr s" by (simp add: parse_line_def)
  from assms(2) have na: "''&'' \<notin> set A" "''|'' \<notin> set A" by (auto simp: plain_def)
  from operator_line[OF c na(1)] have fl: "has_second_command s" "\<not> background s"
    by simp_all
  from classify_flags[OF c] fl(2) na(2) assms(3) have np: "\<not> in_pipe s" by simp
  have la: "c_argv (left_args s) = Some A"
    using c assms(2,3,4) by (rule primary_of_sequence)
  have lb: "c_argv (second_command s) = Some B"
    using c na(1,2) assms(3,4) by (rule second_list_after_last_and)
  have hb: "second_command s ! 0 = Ptr (hd B)" if "B \<noteq> []"
    using that lb c_argv_first[of "second_command s" "hd B" "tl B"] by simp
  let ?w' = "w\<lparr>wait_status := (wait_status w)(pid := Exited 0)\<rparr>"
  have sec: "snd (run_sequence_command (second_command s) False (fork2 w) st) =
               [E_Fork (sequence_child (second_command s)) (Forked pid2), E_Waitpid pid2]" for st
    using assms(9) by (simp add: run_sequence_command_foreground)
  have e: "execute w s =
             [E_Fork (sequence_child (left_args s)) (Forked pid), E_Waitpid pid,
              E_Fork (sequence_child (second_command s)) (Forked pid2), E_Waitpid pid2]"
    using execute_sequence_foreground[OF np fl assms(7)] assms(8) sec by simp
  have "fork1 ?w' = Forked pid" using assms(7) by simp
  from execute_sequence_foreground[OF np fl this] assms(9) sec
  have e': "execute ?w' s = execute w s"
    unfolding e by simp
  have r: "run_sequence_command (left_args s) (background s) (fork1 w) (wait_status w) =
           (0, [E_Fork (sequence_child (left_args s)) (Forked pid), E_Waitpid pid])"
    using fl(2) assms(7,8) by (simp add: run_sequence_command_foreground)
  have p: "process_command_line w sh line = Inr (add_to_history line sh, execute w s)"
    using assms(5,6) by (rule process_not_builtin)
  have p': "process_command_line ?w' sh line = Inr (add_to_history line sh, execute ?w' s)"
    using assms(5,6) by (rule process_not_builtin)
  from fl(2) la lb hb r p p' e e' show ?thesis
    by (simp add: sequence_child_def)
qed

theorem signalled_primary_counts_as_success_witness:
  "tokenize ''make && ./a.out'' = [''make''] @ ''&&'' # [''./a.out''] \<and>
   plain ''make'' \<and> ''|'' \<notin> set [''./a.out''] \<and> ''&&'' \<notin> set [''./a.out''] \<and>
   parse_line ''make && ./a.out'' =
     Inr \<lparr>ctr_i = 1, ctr_j = 1, in_pipe = False, background = False, has_second_command = True,
          left_args = slots [Ptr ''make'', NULL],
          right_args = slots [Garbage, NULL],
          second_command = slots [Ptr ''./a.out'', NULL]\<rparr> \<and>
   \<not> is_builtin (Ptr ''make'') \<and>
   fork1 (sample_os (killed_by 11)) = Forked 100 \<and>
   wait_status (sample_os (killed_by 11)) 100 = Signaled 11 \<and>
   fork2 (sample_os (killed_by 11)) = Forked 101 \<and>
   c_argv (slots [Ptr ''make'', NULL]) = Some [''make''] \<and>
   c_argv (slots [Ptr ''./a.out'', NULL]) = Some [''./a.out''] \<and>
   run_sequence_command (slots [Ptr ''make'', NULL]) False (Forked 100) (killed_by 11) =
     (0, [E_Fork [C_Execvp (Ptr ''make'') (slots [Ptr ''make'', NULL]),
                  C_Fprintf_stderr ''Error: Command not found'', C_Exit EXIT_FAILURE]
                 (Forked 100),
          E_Waitpid 100]) \<and>
   process_command_line (sample_os (killed_by 11)) initial_shell ''make && ./a.out'' =
     Inr (add_to_history ''make && ./a.out'' initial_shell,
          [E_Fork [C_Execvp (Ptr ''make'') (slots [Ptr ''make'', NULL]),
                   C_Fprintf_stderr ''Error: Command not found'', C_Exit EXIT_FAILURE]
                  (Forked 100),
           E_Waitpid 100,
           E_Fork [C_Execvp (Ptr ''./a.out'') (slots [Ptr ''./a.out'', NULL]),
                   C_Fprintf_stderr ''Error: Command not found'', C_Exit EXIT_FAILURE]
                  (Forked 101),
           E_Waitpid 101]) \<and>
   process_command_line (sample_os (killed_by 11)) initial_shell ''make && ./a.out'' =
     process_command_line
       ((sample_os (killed_by 11))\<lparr>wait_status := (killed_by 11)(100 := Exited 0)\<rparr>)
       initial_shell ''make && ./a.out''"
proof -
  let ?s = "\<lparr>ctr_i = 1, ctr_j = 1, in_pipe = False, background = False, has_second_command = True,
          left_args = slots [Ptr ''make'', NULL],
          right_args = slots [Garbage, NULL],
          second_command = slots [Ptr ''./a.out'', NULL]\<rparr>"
  have h1: "tokenize ''make && ./a.out'' = [''make''] @ ''&&'' # [''./a.out'']" by code_simp
  have h2: "\<forall>t \<in> set [''make'']. plain t" "plain ''make''"
    "''|'' \<notin> set [''./a.out'']" "''&&'' \<notin> set [''./a.out'']"
    by (simp_all add: plain_def)
  have h3: "parse_line ''make && ./a.out'' = Inr ?s" by code_simp
  have n: "left_args ?s ! 0 = Ptr ''make''" "second_command ?s ! 0 = Ptr ''./a.out''"
    by (simp_all add: slots_def)
  have h4: "\<not> is_builtin (left_args ?s ! 0)" "\<not> is_builtin (Ptr ''make'')"
    by (simp_all add: is_builtin_def slots_def)
  have h5: "fork1 (sample_os (killed_by 11)) = Forked 100"
    and h6: "wait_status (sample_os (killed_by 11)) 100 = Signaled 11"
    and h7: "fork2 (sample_os (killed_by 11)) = Forked 101"
    and ws: "wait_status (sample_os (killed_by 11)) = killed_by 11"
    by (simp_all add: sample_os_def killed_by_def)
  note th = signalled_primary_counts_as_success[OF h1 h2(1,3,4) h3 h4(1) h5 h6 h7, of initial_shell]
  from th have a: "c_argv (slots [Ptr ''make'', NULL]) = Some [''make'']"
    "c_argv (slots [Ptr ''./a.out'', NULL]) = Some [''./a.out'']"
    by simp_all
  from th n h5 ws have b:
    "run_sequence_command (slots [Ptr ''make'', NULL]) False (Forked 100) (killed_by 11) =
     (0, [E_Fork [C_Execvp (Ptr ''make'') (slots [Ptr ''make'', NULL]),
                  C_Fprintf_stderr ''Error: Command not found'', C_Exit EXIT_FAILURE]
                 (Forked 100),
          E_Waitpid 100])"
    by simp
  from th n have d:
    "process_command_line (sample_os (killed_by 11)) initial_shell ''make && ./a.out'' =
     Inr (add_to_history ''make && ./a.out'' initial_shell,
          [E_Fork [C_Execvp (Ptr ''make'') (slots [Ptr ''make'', NULL]),
                   C_Fprintf_stderr ''Error: Command not found'', C_Exit EXIT_FAILURE]
                  (Forked 100),
           E_Waitpid 100,
           E_Fork [C_Execvp (Ptr ''./a.out'') (slots [Ptr ''./a.out'', NULL]),
                   C_Fprintf_stderr ''Error: Command not found'', C_Exit EXIT_FAILURE]
                  (Forked 101),
           E_Waitpid 101])"
    by simp
  from th have
    "process_command_line (sample_os (killed_by 11)) initial_shell ''make && ./a.out'' =
     process_command_line
       ((sample_os (killed_by 11))
          \<lparr>wait_status := (wait_status (sample_os (killed_by 11)))(100 := Exited 0)\<rparr>)
       initial_shell ''make && ./a.out''"
    by blast
  then have f:
    "process_command_line (sample_os (killed_by 11)) initial_shell ''make && ./a.out'' =
     process_command_line
       ((sample_os (killed_by 11))\<lparr>wait_status := (killed_by 11)(100 := Exited 0)\<rparr>)
       initial_shell ''make && ./a.out''"
    by (simp only: ws)
  from h1 h2(2,3,4) h3 h4(2) h5 h6 h7 a b d f show ?thesis by blast
qed

end
